theory Spec2Isabelle
  imports Main
begin

section \<open>Data of the lead monitor\<close>

text \<open>
  A row of the spreadsheet is a list of cell strings; \<open>response.data.values\<close> is a list
  of rows. The objects handed to \<open>socket.emit\<close> and \<open>ws.send\<close> are kept as the list of
  their fields, in the order of the object literal.
\<close>

type_synonym row = "string list"

datatype json = JString string | JNumber int | JRows "row list"

type_synonym payload = "(string \<times> json) list"

text \<open>
  The outcome of \<open>sheets.spreadsheets.values.get\<close> inside the \<open>try\<close> block of
  \<open>checkLeads\<close>: the block throws (\<open>Rejected\<close>), or the call resolves and
  \<open>response.data.values\<close> is present or undefined.
\<close>

datatype sheets_response = Rejected | Resolved "row list option"

text \<open>\<open>checkLeads\<close>: \<open>return response.data.values || []\<close>, and \<open>null\<close> from the catch block.\<close>

definition checkLeads :: "sheets_response \<Rightarrow> row list option" where
  "checkLeads response =
     (case response of
        Rejected \<Rightarrow> None
      | Resolved None \<Rightarrow> Some []
      | Resolved (Some vals) \<Rightarrow> Some vals)"

text \<open>\<open>!spreadsheetId\<close> for a field that is a string or undefined.\<close>

definition falsy :: "string option \<Rightarrow> bool" where
  "falsy v = (case v of None \<Rightarrow> True | Some str \<Rightarrow> str = [])"

text \<open>\<open>Array.prototype.slice(start)\<close>: a negative start counts from the end.\<close>

definition slice :: "'a list \<Rightarrow> int \<Rightarrow> 'a list" where
  "slice xs start =
     (let len = int (length xs);
          k = (if start < 0 then max (len + start) 0 else min start len)
      in drop (nat k) xs)"

section \<open>The socket.io server (\<open>activeMonitors\<close>)\<close>

text \<open>
  A connection: \<open>socket.id\<close> and \<open>session?.tokens\<close> of the session captured by the
  connection handler (\<open>None\<close> when there is no session or no tokens).
\<close>

record client_socket =
  socket_id :: string
  session_tokens :: "string option"

text \<open>
  Each invocation of the \<open>start-monitoring\<close> handler that passes the guard has its own
  closure: the socket, the \<open>spreadsheetId\<close> of the request and the variable
  \<open>lastRowCount\<close>, shared by the handler body and the interval callback. Closures are
  numbered in order of creation; the interval created by closure \<open>n\<close> has handle \<open>n\<close>.
\<close>

record frame =
  socket :: client_socket
  spreadsheetId :: "string option"
  lastRowCount :: int

text \<open>A call of \<open>checkLeads\<close> that is awaited: by the handler body or by the interval callback.\<close>

datatype pending_read = Baseline nat | Tick nat

text \<open>
  The server: the map \<open>activeMonitors\<close>, the intervals that are set and not cleared, the
  closures, the reads in flight, and every \<open>socket.emit\<close> so far as
  (socket id, event name, object).
\<close>

record server =
  activeMonitors :: "string \<rightharpoonup> nat"
  intervals :: "nat set"
  frames :: "frame list"
  pending :: "pending_read list"
  emitted :: "(string \<times> string \<times> payload) list"

definition init :: server where
  "init = \<lparr>activeMonitors = Map.empty, intervals = {}, frames = [], pending = [], emitted = []\<rparr>"

definition emit :: "client_socket \<Rightarrow> string \<Rightarrow> payload \<Rightarrow> server \<Rightarrow> server" where
  "emit sock ev obj s = s\<lparr>emitted := emitted s @ [(socket_id sock, ev, obj)]\<rparr>"

definition clearInterval :: "nat \<Rightarrow> server \<Rightarrow> server" where
  "clearInterval t s = s\<lparr>intervals := intervals s - {t}\<rparr>"

text \<open>
  \<open>socket.on("start-monitoring")\<close> up to its first \<open>await\<close>: the guard, then
  \<open>let lastRowCount = -1\<close> and the call of \<open>checkLeads\<close>.
\<close>

definition start_monitoring :: "client_socket \<Rightarrow> string option \<Rightarrow> server \<Rightarrow> server" where
  "start_monitoring sock sheet s =
     (if falsy sheet \<or> session_tokens sock = None then s
      else s\<lparr>frames := frames s @ [\<lparr>socket = sock, spreadsheetId = sheet, lastRowCount = - 1\<rparr>],
             pending := pending s @ [Baseline (length (frames s))]\<rparr>)"

text \<open>
  The rest of the handler, run when the baseline read of closure \<open>f\<close> returns
  \<open>initialRows\<close>.
\<close>

definition start_monitoring_resume :: "nat \<Rightarrow> row list option \<Rightarrow> server \<Rightarrow> server" where
  "start_monitoring_resume f initialRows s =
     (let fr = frames s ! f in
      case initialRows of
        None \<Rightarrow>
          emit (socket fr) ''monitoring-error''
            [(''message'', JString ''Failed to access spreadsheet. Check the ID and permissions.'')] s
      | Some rs \<Rightarrow>
          s\<lparr>frames := (frames s)[f := fr\<lparr>lastRowCount := int (length rs)\<rparr>],
            intervals := insert f (intervals s),
            activeMonitors := (activeMonitors s)(socket_id (socket fr) \<mapsto> f)\<rparr>)"

text \<open>The interval callback up to its \<open>await\<close>; it runs only while the interval is set.\<close>

definition interval_callback :: "nat \<Rightarrow> server \<Rightarrow> server" where
  "interval_callback t s =
     (if t \<in> intervals s then s\<lparr>pending := pending s @ [Tick t]\<rparr> else s)"

text \<open>The rest of the interval callback, run when its read returns \<open>rows\<close>.\<close>

definition interval_callback_resume :: "nat \<Rightarrow> row list option \<Rightarrow> server \<Rightarrow> server" where
  "interval_callback_resume f rows s =
     (let fr = frames s ! f in
      case rows of
        Some rs \<Rightarrow>
          (let s1 = (if lastRowCount fr \<noteq> - 1 \<and> int (length rs) > lastRowCount fr
                     then emit (socket fr) ''new-leads''
                            [(''leads'', JRows (slice rs (lastRowCount fr))),
                             (''total'', JNumber (int (length rs)))] s
                     else s)
           in s1\<lparr>frames := (frames s1)[f := fr\<lparr>lastRowCount := int (length rs)\<rparr>]\<rparr>)
      | None \<Rightarrow>
          (let s1 = emit (socket fr) ''monitoring-error''
                      [(''message'', JString ''Lost connection to spreadsheet.'')] s;
               s2 = clearInterval f s1
           in s2\<lparr>activeMonitors := (activeMonitors s2)(socket_id (socket fr) := None)\<rparr>))"

text \<open>\<open>socket.on("stop-monitoring")\<close> and \<open>socket.on("disconnect")\<close>.\<close>

definition stop_monitoring :: "client_socket \<Rightarrow> server \<Rightarrow> server" where
  "stop_monitoring sock s =
     (case activeMonitors s (socket_id sock) of
        Some interval \<Rightarrow>
          (let s1 = clearInterval interval s
           in s1\<lparr>activeMonitors := (activeMonitors s1)(socket_id sock := None)\<rparr>)
      | None \<Rightarrow> s)"

definition disconnect :: "client_socket \<Rightarrow> server \<Rightarrow> server" where
  "disconnect sock s =
     (case activeMonitors s (socket_id sock) of
        Some interval \<Rightarrow>
          (let s1 = clearInterval interval s
           in s1\<lparr>activeMonitors := (activeMonitors s1)(socket_id sock := None)\<rparr>)
      | None \<Rightarrow> s)"

text \<open>
  What the event loop can run next: a message of a client, the firing of an interval, or
  the completion of the \<open>n\<close>-th read in flight with a response of the spreadsheet API.
\<close>

datatype event =
    StartMonitoring client_socket "string option"
  | StopMonitoring client_socket
  | Disconnect client_socket
  | IntervalFires nat
  | ReadCompletes nat sheets_response

definition complete_read :: "nat \<Rightarrow> sheets_response \<Rightarrow> server \<Rightarrow> server" where
  "complete_read n response s =
     (if n < length (pending s) then
        (let s1 = s\<lparr>pending := take n (pending s) @ drop (Suc n) (pending s)\<rparr>
         in case pending s ! n of
              Baseline f \<Rightarrow> start_monitoring_resume f (checkLeads response) s1
            | Tick f \<Rightarrow> interval_callback_resume f (checkLeads response) s1)
      else s)"

fun step :: "server \<Rightarrow> event \<Rightarrow> server" where
  "step s (StartMonitoring sock sheet) = start_monitoring sock sheet s"
| "step s (StopMonitoring sock) = stop_monitoring sock s"
| "step s (Disconnect sock) = disconnect sock s"
| "step s (IntervalFires t) = interval_callback t s"
| "step s (ReadCompletes n response) = complete_read n response s"

fun run :: "server \<Rightarrow> event list \<Rightarrow> server" where
  "run s [] = s"
| "run s (e # es) = run (step s e) es"

section \<open>The WebSocket server (\<open>monitorInterval\<close>, server.ts)\<close>

text \<open>
  One connection of server.ts: \<open>sessionTokens\<close> parsed from the cookie (\<open>None\<close> for
  \<open>null\<close>), the variable \<open>monitorInterval\<close> of the connection handler, the intervals of
  this connection that are set and not cleared, the closures of the message handler
  (\<open>spreadsheetId\<close> and \<open>lastRowCount\<close>), the reads in flight, and the objects given to
  \<open>ws.send\<close>.
\<close>

record ws_frame =
  ws_spreadsheetId :: "string option"
  ws_lastRowCount :: int

record ws_connection =
  sessionTokens :: "string option"
  monitorInterval :: "nat option"
  ws_intervals :: "nat set"
  ws_frames :: "ws_frame list"
  ws_pending :: "pending_read list"
  sent :: "payload list"

definition ws_init :: "string option \<Rightarrow> ws_connection" where
  "ws_init toks = \<lparr>sessionTokens = toks, monitorInterval = None, ws_intervals = {},
                    ws_frames = [], ws_pending = [], sent = []\<rparr>"

definition ws_send :: "payload \<Rightarrow> ws_connection \<Rightarrow> ws_connection" where
  "ws_send obj c = c\<lparr>sent := sent c @ [obj]\<rparr>"

text \<open>
  \<open>ws.on("message")\<close> for a parsed message with fields \<open>type\<close> and \<open>spreadsheetId\<close>, up to
  its first \<open>await\<close>. The start branch checks \<open>sessionTokens\<close> only.
\<close>

definition ws_message :: "string \<Rightarrow> string option \<Rightarrow> ws_connection \<Rightarrow> ws_connection" where
  "ws_message type sheet c =
     (if type = ''start-monitoring'' then
        (if sessionTokens c = None then
           ws_send [(''type'', JString ''error''),
                    (''message'', JString ''Authentication required. Please log in again.'')] c
         else c\<lparr>ws_frames := ws_frames c @ [\<lparr>ws_spreadsheetId = sheet, ws_lastRowCount = - 1\<rparr>],
                ws_pending := ws_pending c @ [Baseline (length (ws_frames c))]\<rparr>)
      else if type = ''stop-monitoring'' then
        (case monitorInterval c of
           Some interval \<Rightarrow> c\<lparr>ws_intervals := ws_intervals c - {interval}\<rparr>
         | None \<Rightarrow> c)
      else c)"

text \<open>The rest of the start branch, run when the baseline read of closure \<open>f\<close> returns.\<close>

definition ws_message_resume :: "nat \<Rightarrow> row list option \<Rightarrow> ws_connection \<Rightarrow> ws_connection" where
  "ws_message_resume f initialRows c =
     (case initialRows of
        None \<Rightarrow>
          ws_send [(''type'', JString ''error''),
                   (''message'', JString ''Failed to access spreadsheet. Ensure you have permissions.'')] c
      | Some rs \<Rightarrow>
          c\<lparr>ws_frames := (ws_frames c)[f := (ws_frames c ! f)\<lparr>ws_lastRowCount := int (length rs)\<rparr>],
            ws_intervals := insert f (ws_intervals c),
            monitorInterval := Some f\<rparr>)"

definition ws_interval_callback :: "nat \<Rightarrow> ws_connection \<Rightarrow> ws_connection" where
  "ws_interval_callback t c =
     (if t \<in> ws_intervals c then c\<lparr>ws_pending := ws_pending c @ [Tick t]\<rparr> else c)"

text \<open>
  The rest of the interval callback of server.ts: the object sent has the fields
  \<open>type\<close> and \<open>leads\<close>, and a failed read clears whatever \<open>monitorInterval\<close> holds.
\<close>

definition ws_interval_callback_resume :: "nat \<Rightarrow> row list option \<Rightarrow> ws_connection \<Rightarrow> ws_connection" where
  "ws_interval_callback_resume f rows c =
     (let fr = ws_frames c ! f in
      case rows of
        Some rs \<Rightarrow>
          (let c1 = (if ws_lastRowCount fr \<noteq> - 1 \<and> int (length rs) > ws_lastRowCount fr
                     then ws_send [(''type'', JString ''new-leads''),
                                   (''leads'', JRows (slice rs (ws_lastRowCount fr)))] c
                     else c)
           in c1\<lparr>ws_frames := (ws_frames c1)[f := fr\<lparr>ws_lastRowCount := int (length rs)\<rparr>]\<rparr>)
      | None \<Rightarrow>
          (let c1 = ws_send [(''type'', JString ''error''),
                             (''message'', JString ''Lost connection to spreadsheet.'')] c
           in case monitorInterval c1 of
                Some interval \<Rightarrow> c1\<lparr>ws_intervals := ws_intervals c1 - {interval}\<rparr>
              | None \<Rightarrow> c1))"

text \<open>The completion of the \<open>n\<close>-th read in flight of the connection.\<close>

definition ws_complete_read :: "nat \<Rightarrow> sheets_response \<Rightarrow> ws_connection \<Rightarrow> ws_connection" where
  "ws_complete_read n response c =
     (if n < length (ws_pending c) then
        (let c1 = c\<lparr>ws_pending := take n (ws_pending c) @ drop (Suc n) (ws_pending c)\<rparr>
         in case ws_pending c ! n of
              Baseline f \<Rightarrow> ws_message_resume f (checkLeads response) c1
            | Tick f \<Rightarrow> ws_interval_callback_resume f (checkLeads response) c1)
      else c)"

section \<open>Reads of one session, as the specification describes them\<close>

text \<open>
  The batches the specification asks for, from the row count \<open>prev\<close> of the previous
  successful read and the following successful reads: nothing for a read with as many
  rows as the previous one, otherwise the rows from index \<open>prev\<close> on, with the new total.
\<close>

fun new_leads_spec :: "nat \<Rightarrow> row list list \<Rightarrow> (row list \<times> nat) list" where
  "new_leads_spec prev [] = []"
| "new_leads_spec prev (rs # rest) =
     (if length rs = prev then [] else [(drop prev rs, length rs)]) @ new_leads_spec (length rs) rest"




text \<open>
  A sheet that is only appended to: each read starts with the rows of the read before it
  (\<open>base\<close> for the first).
\<close>

fun appended :: "row list \<Rightarrow> row list list \<Rightarrow> bool" where
  "appended base [] = True"
| "appended base (rs # rest) = (take (length base) rs = base \<and> appended rs rest)"

section \<open>Example data\<close>

text \<open>A connected client with tokens, a sheet of three rows and the same sheet with two rows appended,
  and the server after the client has started monitoring the three-row sheet.\<close>

abbreviation socketA :: client_socket where
  "socketA \<equiv> \<lparr>socket_id = ''A'', session_tokens = Some ''tok''\<rparr>"

abbreviation rows3 :: "row list" where
  "rows3 \<equiv> [[''a''], [''b''], [''c'']]"

abbreviation rows5 :: "row list" where
  "rows5 \<equiv> [[''a''], [''b''], [''c''], [''d''], [''e'']]"


abbreviation baselined3 :: server where
  "baselined3 \<equiv> \<lparr>activeMonitors = [''A'' \<mapsto> 0], intervals = {0},
      frames = [\<lparr>socket = socketA, spreadsheetId = Some ''sheet'', lastRowCount = 3\<rparr>],
      pending = [], emitted = []\<rparr>"

text \<open>The server with the baseline read of that client in flight, and with the first tick read
  in flight after a baseline of three rows.\<close>

abbreviation started :: server where
  "started \<equiv> run init [StartMonitoring socketA (Some ''sheet'')]"

abbreviation ticking3 :: server where
  "ticking3 \<equiv> run init [StartMonitoring socketA (Some ''sheet''),
                          ReadCompletes 0 (Resolved (Some rows3)), IntervalFires 0]"

text \<open>
  Runs in which the client stops or disconnects while the first tick read is in flight, a
  run in which the client starts monitoring a second sheet without stopping, and a
  connection of server.ts after a baseline of three rows.
\<close>

abbreviation two_in_flight :: server where
  "two_in_flight \<equiv> run init [StartMonitoring socketA (Some ''sheet''),
       ReadCompletes 0 (Resolved (Some rows3)), IntervalFires 0, IntervalFires 0]"

abbreviation stopped_in_flight :: server where
  "stopped_in_flight \<equiv> run init [StartMonitoring socketA (Some ''sheet''),
       ReadCompletes 0 (Resolved (Some rows3)), IntervalFires 0, StopMonitoring socketA]"

abbreviation disconnected_in_flight :: server where
  "disconnected_in_flight \<equiv> run init [StartMonitoring socketA (Some ''sheet''),
       ReadCompletes 0 (Resolved (Some rows3)), IntervalFires 0, Disconnect socketA]"

abbreviation restarted :: server where
  "restarted \<equiv> run init [StartMonitoring socketA (Some ''first''),
       ReadCompletes 0 (Resolved (Some rows3)),
       StartMonitoring socketA (Some ''second''), ReadCompletes 0 (Resolved (Some []))]"

abbreviation ws_baselined3 :: ws_connection where
  "ws_baselined3 \<equiv> ws_complete_read 0 (Resolved (Some rows3))
       (ws_message ''start-monitoring'' (Some ''sheet'') (ws_init (Some ''tok'')))"

text \<open>A connection of server.ts that started monitoring a second sheet without stopping.\<close>

abbreviation ws_restarted :: ws_connection where
  "ws_restarted \<equiv> ws_complete_read 0 (Resolved (Some []))
       (ws_message ''start-monitoring'' (Some ''second'')
          (ws_complete_read 0 (Resolved (Some rows3))
             (ws_message ''start-monitoring'' (Some ''first'') (ws_init (Some ''tok'')))))"

section \<open>Well-formed states\<close>

text \<open>
  What every reachable state satisfies: an interval that is set, a tick read in flight and
  an entry of \<open>activeMonitors\<close> belong to a closure whose baseline read has returned, and
  each closure awaits at most one baseline read.
\<close>

definition wf :: "server \<Rightarrow> bool" where
  "wf s \<longleftrightarrow>
     (\<forall>f \<in> intervals s. f < length (frames s) \<and> 0 \<le> lastRowCount (frames s ! f)
                         \<and> Baseline f \<notin> set (pending s))
   \<and> (\<forall>f. Tick f \<in> set (pending s) \<longrightarrow> f < length (frames s) \<and> 0 \<le> lastRowCount (frames s ! f)
                         \<and> Baseline f \<notin> set (pending s))
   \<and> (\<forall>f. Baseline f \<in> set (pending s) \<longrightarrow> f < length (frames s))
   \<and> (\<forall>k t. activeMonitors s k = Some t \<longrightarrow> t < length (frames s) \<and> Baseline t \<notin> set (pending s))
   \<and> (\<forall>f. count_list (pending s) (Baseline f) \<le> 1)"

text \<open>
  The interval of closure \<open>t\<close> is not set and cannot be set any more: the closure exists and
  its baseline read is no longer awaited.
\<close>

definition released :: "nat \<Rightarrow> server \<Rightarrow> bool" where
  "released t s \<longleftrightarrow> t < length (frames s) \<and> t \<notin> intervals s \<and> Baseline t \<notin> set (pending s)"

text \<open>The session of closure \<open>f\<close> is over: its interval cannot be set any more and none of its
  tick reads is in flight.\<close>

definition finished :: "nat \<Rightarrow> server \<Rightarrow> bool" where
  "finished f s \<longleftrightarrow> released f s \<and> Tick f \<notin> set (pending s)"

lemmas handler_defs = init_def start_monitoring_def falsy_def complete_read_def
  start_monitoring_resume_def interval_callback_def interval_callback_resume_def checkLeads_def
  emit_def clearInterval_def stop_monitoring_def disconnect_def slice_def Let_def

lemmas ws_handler_defs = ws_init_def ws_send_def ws_message_def ws_message_resume_def
  ws_interval_callback_def ws_interval_callback_resume_def ws_complete_read_def checkLeads_def
  slice_def Let_def

lemma wf_init: "wf init"
  by (simp add: wf_def init_def)

lemma wf_start_monitoring: "wf s \<Longrightarrow> wf (start_monitoring sock sheet s)"
  unfolding wf_def start_monitoring_def
  apply (clarsimp simp add: nth_append)
  apply (intro conjI allI impI)
  apply (auto simp add: nth_append less_Suc_eq count_list_0_iff)
  done

lemma wf_stop_monitoring: "wf s \<Longrightarrow> wf (stop_monitoring sock s)"
  unfolding wf_def stop_monitoring_def clearInterval_def
  by (auto simp add: Let_def split: option.splits)

lemma wf_disconnect: "wf s \<Longrightarrow> wf (disconnect sock s)"
  unfolding wf_def disconnect_def clearInterval_def
  by (auto simp add: Let_def split: option.splits)

lemma wf_interval_callback: "wf s \<Longrightarrow> wf (interval_callback t s)"
  unfolding wf_def interval_callback_def
  by auto

lemma set_remove_nth: "set (take n xs @ drop (Suc n) xs) \<subseteq> set xs"
  by (auto dest: in_set_takeD in_set_dropD)

lemma count_remove_nth:
  "n < length xs \<Longrightarrow> count_list (take n xs @ drop (Suc n) xs) x + (if xs ! n = x then 1 else 0) = count_list xs x"
proof -
  assume n: "n < length xs"
  then have "xs = take n xs @ (xs ! n) # drop (Suc n) xs"
    by (simp add: id_take_nth_drop)
  then have "count_list xs x = count_list (take n xs @ (xs ! n) # drop (Suc n) xs) x"
    by simp
  then show ?thesis by simp
qed

lemma removed_baseline_gone:
  assumes "n < length xs" "xs ! n = Baseline f" "count_list xs (Baseline f) \<le> 1"
  shows "Baseline f \<notin> set (take n xs @ drop (Suc n) xs)"
proof -
  from count_remove_nth[OF assms(1), of "Baseline f"] assms(2,3)
  have "count_list (take n xs @ drop (Suc n) xs) (Baseline f) = 0" by simp
  then show ?thesis by (simp add: count_list_0_iff)
qed

lemma count_remove_le:
  "n < length xs \<Longrightarrow> count_list (take n xs @ drop (Suc n) xs) x \<le> count_list xs x"
  using count_remove_nth[of n xs x] by (simp split: if_splits)


lemma wf_start_monitoring_resume:
  assumes "wf s" "n < length (pending s)" "pending s ! n = Baseline f"
  shows "wf (start_monitoring_resume f r (s\<lparr>pending := take n (pending s) @ drop (Suc n) (pending s)\<rparr>))"
proof -
  let ?ps = "take n (pending s) @ drop (Suc n) (pending s)"
  have sub: "set ?ps \<subseteq> set (pending s)" by (rule set_remove_nth)
  have mem: "Baseline f \<in> set (pending s)" using assms(2,3) nth_mem by fastforce
  have f: "f < length (frames s)" using assms(1) mem by (simp add: wf_def)
  have gone: "Baseline f \<notin> set ?ps"
    using removed_baseline_gone[OF assms(2,3)] assms(1) by (simp add: wf_def)
  have cnt: "\<And>g. count_list ?ps (Baseline g) \<le> 1"
    using count_remove_le[OF assms(2)] assms(1) unfolding wf_def by (meson le_trans)
  show ?thesis
  proof (cases r)
    case None
    then show ?thesis
      using assms(1) sub cnt unfolding wf_def start_monitoring_resume_def emit_def Let_def
      by (auto)
  next
    case (Some rs)
    then show ?thesis
      using assms(1) sub cnt f gone unfolding wf_def start_monitoring_resume_def Let_def
      by (auto simp add: nth_list_update)
  qed
qed

lemma wf_interval_callback_resume:
  assumes "wf s" "n < length (pending s)" "pending s ! n = Tick f"
  shows "wf (interval_callback_resume f r (s\<lparr>pending := take n (pending s) @ drop (Suc n) (pending s)\<rparr>))"
proof -
  let ?ps = "take n (pending s) @ drop (Suc n) (pending s)"
  have sub: "set ?ps \<subseteq> set (pending s)" by (rule set_remove_nth)
  have mem: "Tick f \<in> set (pending s)" using assms(2,3) nth_mem by fastforce
  have f: "f < length (frames s)" using assms(1) mem by (simp add: wf_def)
  have cnt: "\<And>g. count_list ?ps (Baseline g) \<le> 1"
    using count_remove_le[OF assms(2)] assms(1) unfolding wf_def by (meson le_trans)
  show ?thesis
  proof (cases r)
    case None
    then show ?thesis
      using assms(1) sub cnt unfolding wf_def interval_callback_resume_def emit_def clearInterval_def Let_def
      by (auto)
  next
    case (Some rs)
    then show ?thesis
      using assms(1) sub cnt f unfolding wf_def interval_callback_resume_def emit_def Let_def
      by (auto simp add: nth_list_update)
  qed
qed

lemma wf_complete_read: "wf s \<Longrightarrow> wf (complete_read n response s)"
  unfolding complete_read_def Let_def
  by (auto split: pending_read.splits intro: wf_start_monitoring_resume wf_interval_callback_resume)

lemma wf_step: "wf s \<Longrightarrow> wf (step s e)"
  by (cases e) (simp_all add: wf_start_monitoring wf_stop_monitoring wf_disconnect
      wf_interval_callback wf_complete_read)

lemma wf_run: "wf s \<Longrightarrow> wf (run s es)"
  by (induction es arbitrary: s) (simp_all add: wf_step)

lemma wf_reachable: "wf (run init es)"
  by (rule wf_run[OF wf_init])

lemma released_complete_read: "released t s \<Longrightarrow> released t (complete_read n response s)"
proof -
  assume r: "released t s"
  show ?thesis
  proof (cases "n < length (pending s)")
    case False
    then show ?thesis using r by (simp add: complete_read_def)
  next
    case True
    let ?ps = "take n (pending s) @ drop (Suc n) (pending s)"
    have sub: "set ?ps \<subseteq> set (pending s)" by (rule set_remove_nth)
    have mem: "pending s ! n \<in> set (pending s)" using True by simp
    show ?thesis
    proof (cases "pending s ! n")
      case (Baseline f)
      then have "f \<noteq> t" using mem r by (auto simp add: released_def)
      then show ?thesis
        using r sub True Baseline
        by (cases "checkLeads response")
           (auto simp add: released_def complete_read_def start_monitoring_resume_def emit_def Let_def)
    next
      case (Tick f)
      then show ?thesis
        using r sub True
        by (cases "checkLeads response")
           (auto simp add: released_def complete_read_def interval_callback_resume_def emit_def
             clearInterval_def Let_def)
    qed
  qed
qed

lemma released_step: "released t s \<Longrightarrow> released t (step s e)"
proof (cases e)
  case (ReadCompletes n response)
  assume "released t s"
  then show ?thesis using ReadCompletes by (simp add: released_complete_read)
qed (auto simp add: released_def start_monitoring_def stop_monitoring_def disconnect_def
      interval_callback_def clearInterval_def Let_def split: option.splits)

lemma released_run: "released t s \<Longrightarrow> released t (run s es)"
  by (induction es arbitrary: s) (simp_all add: released_step)

lemma released_no_tick: "released t s \<Longrightarrow> step s (IntervalFires t) = s"
  by (simp add: released_def interval_callback_def)

lemma finished_step: "finished f s \<Longrightarrow> finished f (step s e)"
proof -
  assume fin: "finished f s"
  then have rel: "released f (step s e)" by (simp add: finished_def released_step)
  have nt: "Tick f \<notin> set (pending s)" and ni: "f \<notin> intervals s"
    using fin by (simp_all add: finished_def released_def)
  have "Tick f \<notin> set (pending (step s e))"
  proof (cases e)
    case (ReadCompletes n response)
    have sub: "set (take n (pending s) @ drop (Suc n) (pending s)) \<subseteq> set (pending s)"
      by (rule set_remove_nth)
    show ?thesis
      using nt sub unfolding ReadCompletes
      by (cases "checkLeads response")
         (auto simp add: complete_read_def start_monitoring_resume_def interval_callback_resume_def
            emit_def clearInterval_def Let_def split: pending_read.splits)
  qed (use nt ni in \<open>auto simp add: start_monitoring_def stop_monitoring_def disconnect_def
        interval_callback_def clearInterval_def Let_def split: option.splits\<close>)
  then show ?thesis using rel by (simp add: finished_def)
qed

lemma finished_run: "finished f s \<Longrightarrow> finished f (run s es)"
  by (induction es arbitrary: s) (simp_all add: finished_step)

lemma nth_list_update_total:
  "(xs[g := y]) ! f = (if g = f \<and> g < length xs then y else xs ! f)"
  by (cases "g < length xs") (simp_all add: nth_list_update list_update_beyond)

lemma nonneg_complete_read:
  assumes "f < length (frames s)" "0 \<le> lastRowCount (frames s ! f)"
  shows "f < length (frames (complete_read n response s))
       \<and> 0 \<le> lastRowCount (frames (complete_read n response s) ! f)"
proof (cases "n < length (pending s)")
  case False
  then show ?thesis using assms by (simp add: complete_read_def)
next
  case True
  show ?thesis
  proof (cases "pending s ! n")
    case (Baseline g)
    then show ?thesis using assms True
      by (cases "checkLeads response")
         (auto simp add: complete_read_def start_monitoring_resume_def emit_def Let_def
            nth_list_update_total)
  next
    case (Tick g)
    then show ?thesis using assms True
      by (cases "checkLeads response")
         (auto simp add: complete_read_def interval_callback_resume_def emit_def clearInterval_def
            Let_def nth_list_update_total)
  qed
qed

lemma nonneg_step:
  assumes "f < length (frames s)" "0 \<le> lastRowCount (frames s ! f)"
  shows "f < length (frames (step s e)) \<and> 0 \<le> lastRowCount (frames (step s e) ! f)"
proof (cases e)
  case (ReadCompletes n response)
  then show ?thesis using nonneg_complete_read[OF assms] by simp
qed (use assms in \<open>auto simp add: start_monitoring_def stop_monitoring_def disconnect_def
      interval_callback_def clearInterval_def Let_def nth_append split: option.splits\<close>)

lemma nonneg_run:
  "f < length (frames s) \<Longrightarrow> 0 \<le> lastRowCount (frames s ! f)
   \<Longrightarrow> f < length (frames (run s es)) \<and> 0 \<le> lastRowCount (frames (run s es) ! f)"
  by (induction es arbitrary: s) (simp_all add: nonneg_step)

section \<open>New leads of a run of ticks\<close>




lemma run_baselined3:
  "run init [StartMonitoring socketA (Some ''sheet''), ReadCompletes 0 (Resolved (Some rows3))] = baselined3"
  by (simp add: init_def start_monitoring_def falsy_def complete_read_def start_monitoring_resume_def
      checkLeads_def Let_def)

text \<open>
  For a sheet that is only appended to, the row counts do not decrease and the batches of
  the specification, put end to end, are the rows of the last read from the baseline
  count on: every appended row once, in order.
\<close>

lemma appended_length: "take (length base) rs = base \<Longrightarrow> length base \<le> length rs"
proof -
  assume "take (length base) rs = base"
  then have "length (take (length base) rs) = length base" by simp
  then show ?thesis by simp
qed

lemma appended_last:
  "appended base reads \<Longrightarrow> take (length base) (last (base # reads)) = base"
proof (induction reads arbitrary: base)
  case Nil
  then show ?case by simp
next
  case (Cons rs rest)
  then have t: "take (length base) rs = base" and a: "appended rs rest" by simp_all
  have le: "length base \<le> length rs" using t by (rule appended_length)
  have "take (length rs) (last (rs # rest)) = rs" using Cons.IH[OF a] .
  then have "take (length base) (take (length rs) (last (rs # rest))) = base" using t by simp
  then have "take (length base) (last (rs # rest)) = base" using le by (simp add: min_def)
  then show ?case by simp
qed

lemma new_leads_spec_concat:
  "appended base reads \<Longrightarrow>
   concat (map fst (new_leads_spec (length base) reads)) = drop (length base) (last (base # reads))"
proof (induction reads arbitrary: base)
  case Nil
  then show ?case by simp
next
  case (Cons rs rest)
  then have t: "take (length base) rs = base" and a: "appended rs rest" by simp_all
  have le: "length base \<le> length rs" using t by (rule appended_length)
  let ?L = "last (rs # rest)"
  have "take (length rs) ?L = rs" using appended_last[OF a] .
  then have L: "?L = rs @ drop (length rs) ?L" by (metis append_take_drop_id)
  have "drop (length base) ?L = drop (length base) rs @ drop (length rs) ?L"
    using le by (subst L) simp
  moreover have "concat (map fst (new_leads_spec (length base) (rs # rest)))
        = drop (length base) rs @ drop (length rs) ?L"
    using Cons.IH[OF a] le by simp
  ultimately show ?case by simp
qed

lemma sorted_appended: "appended base reads \<Longrightarrow> sorted (length base # map length reads)"
proof (induction reads arbitrary: base)
  case Nil
  then show ?case by simp
next
  case (Cons rs rest)
  then have t: "take (length base) rs = base" and a: "appended rs rest" by simp_all
  have le: "length base \<le> length rs" using t by (rule appended_length)
  have "sorted (length rs # map length rest)" using Cons.IH[OF a] .
  then show ?case using le by auto
qed







section \<open>The tick handler and \<open>lastRowCount\<close>\<close>

text \<open>
  C8. When a tick read succeeds, \<open>lastRowCount\<close> of the session becomes the number of rows
  returned, whatever it was before; when that number is not larger than the previous
  count (in particular when it decreased) nothing is emitted, and the interval, the
  registry and the reads in flight are unchanged.
\<close>

theorem lastRowCount_adopts_count:
  assumes "f < length (frames s)"
  shows "lastRowCount (frames (interval_callback_resume f (Some rs) s) ! f) = int (length rs)
       \<and> (int (length rs) \<le> lastRowCount (frames s ! f)
            \<longrightarrow> emitted (interval_callback_resume f (Some rs) s) = emitted s)
       \<and> intervals (interval_callback_resume f (Some rs) s) = intervals s
       \<and> activeMonitors (interval_callback_resume f (Some rs) s) = activeMonitors s
       \<and> pending (interval_callback_resume f (Some rs) s) = pending s"
  using assms by (simp add: interval_callback_resume_def Let_def emit_def)

theorem lastRowCount_adopts_count_witness:
  "0 < length (frames baselined3)
   \<and> lastRowCount (frames (interval_callback_resume 0 (Some [[''a'']]) baselined3) ! 0) = 1
   \<and> int (length [[''a'']]) \<le> lastRowCount (frames baselined3 ! 0)
   \<and> emitted (interval_callback_resume 0 (Some [[''a'']]) baselined3) = []
   \<and> intervals (interval_callback_resume 0 (Some [[''a'']]) baselined3) = {0}"
proof -
  have h: "0 < length (frames baselined3)" by simp
  show ?thesis
    using lastRowCount_adopts_count[OF h, of "[[''a'']]"] by simp
qed

text \<open>
  C10. In every reachable state, a session whose baseline read has succeeded (its interval
  is set, or one of its tick reads is in flight) has a \<open>lastRowCount\<close> that is not the
  sentinel \<open>-1\<close> and not negative, so the guard \<open>lastRowCount !== -1\<close> of the tick handler
  holds at every tick; a successful baseline read makes \<open>lastRowCount\<close> non-negative, and
  a non-negative \<open>lastRowCount\<close> stays non-negative whatever happens next.
\<close>

theorem lastRowCount_not_sentinel:
  assumes "s = run init es"
  shows "(\<forall>f. f \<in> intervals s \<or> Tick f \<in> set (pending s)
            \<longrightarrow> lastRowCount (frames s ! f) \<noteq> - 1 \<and> 0 \<le> lastRowCount (frames s ! f))
       \<and> (\<forall>n f v. n < length (pending s) \<and> pending s ! n = Baseline f
            \<longrightarrow> 0 \<le> lastRowCount (frames (step s (ReadCompletes n (Resolved v))) ! f))
       \<and> (\<forall>f es'. f < length (frames s) \<and> 0 \<le> lastRowCount (frames s ! f)
            \<longrightarrow> 0 \<le> lastRowCount (frames (run s es') ! f))"
proof -
  have wf: "wf s" using assms by (simp add: wf_reachable)
  have 1: "\<forall>f. f \<in> intervals s \<or> Tick f \<in> set (pending s)
            \<longrightarrow> lastRowCount (frames s ! f) \<noteq> - 1 \<and> 0 \<le> lastRowCount (frames s ! f)"
    using wf unfolding wf_def by fastforce
  have 2: "0 \<le> lastRowCount (frames (step s (ReadCompletes n (Resolved v))) ! f)"
    if "n < length (pending s)" "pending s ! n = Baseline f" for n f v
  proof -
    have "Baseline f \<in> set (pending s)" using that nth_mem by fastforce
    then have "f < length (frames s)" using wf by (simp add: wf_def)
    then show ?thesis using that
      by (cases v) (simp_all add: complete_read_def checkLeads_def start_monitoring_resume_def Let_def)
  qed
  have 3: "\<forall>f es'. f < length (frames s) \<and> 0 \<le> lastRowCount (frames s ! f)
            \<longrightarrow> 0 \<le> lastRowCount (frames (run s es') ! f)"
    using nonneg_run by blast
  show ?thesis using 1 2 3 by blast
qed

theorem lastRowCount_not_sentinel_witness:
  "0 \<in> intervals ticking3 \<and> lastRowCount (frames ticking3 ! 0) \<noteq> - 1
   \<and> 0 < length (pending started) \<and> pending started ! 0 = Baseline 0
   \<and> 0 \<le> lastRowCount (frames (step started (ReadCompletes 0 (Resolved None))) ! 0)
   \<and> 0 < length (frames ticking3) \<and> 0 \<le> lastRowCount (frames ticking3 ! 0)
   \<and> 0 \<le> lastRowCount (frames (run ticking3 [ReadCompletes 0 (Resolved (Some []))]) ! 0)"
proof -
  have a: "0 \<in> intervals ticking3" by (simp add: handler_defs)
  have b: "0 < length (pending started) \<and> pending started ! 0 = Baseline 0"
    by (simp add: handler_defs)
  have c: "0 < length (frames ticking3)" by (simp add: handler_defs)
  note t1 = lastRowCount_not_sentinel[OF refl, of "[StartMonitoring socketA (Some ''sheet''),
                          ReadCompletes 0 (Resolved (Some rows3)), IntervalFires 0]"]
  note t2 = lastRowCount_not_sentinel[OF refl, of "[StartMonitoring socketA (Some ''sheet'')]"]
  have 1: "lastRowCount (frames ticking3 ! 0) \<noteq> - 1 \<and> 0 \<le> lastRowCount (frames ticking3 ! 0)"
    using t1 a by blast
  have 2: "0 \<le> lastRowCount (frames (step started (ReadCompletes 0 (Resolved None))) ! 0)"
    using t2 b by blast
  have 3: "0 \<le> lastRowCount (frames (run ticking3 [ReadCompletes 0 (Resolved (Some []))]) ! 0)"
    using t1 c 1 by blast
  show ?thesis using a b c 1 2 3 by blast
qed

section \<open>Read failures\<close>

text \<open>
  Two tick reads of a session are in flight and the first fails: the interval is cleared
  and the registry entry deleted. When the second read then fails, a second
  \<open>monitoring-error\<close> is emitted; when it succeeds with two more rows, a \<open>new-leads\<close>
  message is emitted after the error.
\<close>

theorem read_failure_counterexample:
  "intervals (step two_in_flight (ReadCompletes 0 Rejected)) = {}
   \<and> activeMonitors (step two_in_flight (ReadCompletes 0 Rejected)) ''A'' = None
   \<and> emitted (run two_in_flight [ReadCompletes 0 Rejected, ReadCompletes 0 Rejected])
       = [(''A'', ''monitoring-error'', [(''message'', JString ''Lost connection to spreadsheet.'')]),
          (''A'', ''monitoring-error'', [(''message'', JString ''Lost connection to spreadsheet.'')])]
   \<and> emitted (run two_in_flight [ReadCompletes 0 Rejected, ReadCompletes 0 (Resolved (Some rows5))])
       = [(''A'', ''monitoring-error'', [(''message'', JString ''Lost connection to spreadsheet.'')]),
          (''A'', ''new-leads'', [(''leads'', JRows [[''d''], [''e'']]), (''total'', JNumber 5)])]"
  by (simp add: handler_defs)

text \<open>
  C6 (as the code has it). The completion of a failed read emits exactly one
  \<open>monitoring-error\<close> message. When it is the baseline read of a session, intervals and
  registry are unchanged, the session has no interval and in every later state it has
  neither an interval nor a read in flight. When it is a tick read, the interval of the
  session is cleared and the entry of the socket is deleted from \<open>activeMonitors\<close>; in
  every later state the interval is not set and its callback starts no read, so the
  failed read is not retried. The other reads in flight stay in flight (nothing checks
  for the end of the session when they complete); when no tick read of the session is
  among them, the session never has a read in flight again.
\<close>

theorem read_failure_ends_session:
  assumes "s = run init es" and "n < length (pending s)"
    and "s' = step s (ReadCompletes n Rejected)"
  shows "(pending s ! n = Baseline f \<longrightarrow>
            emitted s' = emitted s @ [(socket_id (socket (frames s ! f)), ''monitoring-error'',
                   [(''message'', JString ''Failed to access spreadsheet. Check the ID and permissions.'')])]
          \<and> intervals s' = intervals s \<and> activeMonitors s' = activeMonitors s
          \<and> f \<notin> intervals s
          \<and> (\<forall>es'. f \<notin> intervals (run s' es') \<and> Tick f \<notin> set (pending (run s' es'))
                  \<and> Baseline f \<notin> set (pending (run s' es'))))
       \<and> (pending s ! n = Tick f \<longrightarrow>
            emitted s' = emitted s @ [(socket_id (socket (frames s ! f)), ''monitoring-error'',
                   [(''message'', JString ''Lost connection to spreadsheet.'')])]
          \<and> intervals s' = intervals s - {f}
          \<and> activeMonitors s' (socket_id (socket (frames s ! f))) = None
          \<and> pending s' = take n (pending s) @ drop (Suc n) (pending s)
          \<and> (\<forall>es'. f \<notin> intervals (run s' es')
                  \<and> step (run s' es') (IntervalFires f) = run s' es')
          \<and> (Tick f \<notin> set (pending s') \<longrightarrow> (\<forall>es'. Tick f \<notin> set (pending (run s' es')))))"
proof -
  have wf: "wf s" using assms(1) by (simp add: wf_reachable)
  let ?ps = "take n (pending s) @ drop (Suc n) (pending s)"
  have sub: "set ?ps \<subseteq> set (pending s)" by (rule set_remove_nth)
  have mem: "pending s ! n \<in> set (pending s)" using assms(2) by simp
  have base: "pending s ! n = Baseline f \<Longrightarrow> ?thesis"
  proof -
    assume b: "pending s ! n = Baseline f"
    have f: "f < length (frames s)" using wf mem b by (auto simp add: wf_def)
    have notin: "f \<notin> intervals s" using wf mem b by (auto simp add: wf_def)
    have notick: "Tick f \<notin> set (pending s)" using wf mem b by (auto simp add: wf_def)
    have gone: "Baseline f \<notin> set ?ps"
      using removed_baseline_gone[OF assms(2) b] wf by (simp add: wf_def)
    have s': "s' = emit (socket (frames s ! f)) ''monitoring-error''
            [(''message'', JString ''Failed to access spreadsheet. Check the ID and permissions.'')]
            (s\<lparr>pending := ?ps\<rparr>)"
      using assms(2,3) b
      by (simp add: complete_read_def checkLeads_def start_monitoring_resume_def Let_def)
    have em: "emitted s' = emitted s @ [(socket_id (socket (frames s ! f)), ''monitoring-error'',
                   [(''message'', JString ''Failed to access spreadsheet. Check the ID and permissions.'')])]"
      and iv: "intervals s' = intervals s" and am: "activeMonitors s' = activeMonitors s"
      and ps: "pending s' = ?ps" and fr: "frames s' = frames s"
      by (simp_all add: s' emit_def)
    have "finished f s'"
      using f notin gone notick sub by (auto simp add: finished_def released_def iv ps fr)
    then have "\<forall>es'. finished f (run s' es')" by (simp add: finished_run)
    then have "\<forall>es'. f \<notin> intervals (run s' es') \<and> Tick f \<notin> set (pending (run s' es'))
                  \<and> Baseline f \<notin> set (pending (run s' es'))"
      by (simp add: finished_def released_def)
    then show ?thesis using b em iv am notin by simp
  qed
  have tick: "pending s ! n = Tick f \<Longrightarrow> ?thesis"
  proof -
    assume b: "pending s ! n = Tick f"
    have f: "f < length (frames s)" and nb: "Baseline f \<notin> set (pending s)"
      using wf mem b by (auto simp add: wf_def)
    have gone: "Baseline f \<notin> set ?ps" using nb sub by auto
    have s': "s' = (clearInterval f (emit (socket (frames s ! f)) ''monitoring-error''
                      [(''message'', JString ''Lost connection to spreadsheet.'')] (s\<lparr>pending := ?ps\<rparr>)))
                   \<lparr>activeMonitors := (activeMonitors s)(socket_id (socket (frames s ! f)) := None)\<rparr>"
      using assms(2,3) b
      by (simp add: complete_read_def checkLeads_def interval_callback_resume_def Let_def
          emit_def clearInterval_def)
    have em: "emitted s' = emitted s @ [(socket_id (socket (frames s ! f)), ''monitoring-error'',
                   [(''message'', JString ''Lost connection to spreadsheet.'')])]"
      and iv: "intervals s' = intervals s - {f}"
      and am: "activeMonitors s' (socket_id (socket (frames s ! f))) = None"
      and ps: "pending s' = ?ps" and fr: "frames s' = frames s"
      by (simp_all add: s' emit_def clearInterval_def)
    have rel: "released f s'"
      using f gone by (simp add: released_def iv ps fr)
    then have "\<forall>es'. released f (run s' es')" by (simp add: released_run)
    then have 1: "\<forall>es'. f \<notin> intervals (run s' es') \<and> step (run s' es') (IntervalFires f) = run s' es'"
      using released_no_tick by (auto simp add: released_def)
    have 2: "Tick f \<notin> set (pending s') \<longrightarrow> (\<forall>es'. Tick f \<notin> set (pending (run s' es')))"
    proof
      assume "Tick f \<notin> set (pending s')"
      then have "finished f s'" using rel by (simp add: finished_def)
      then have "\<forall>es'. finished f (run s' es')" by (simp add: finished_run)
      then show "\<forall>es'. Tick f \<notin> set (pending (run s' es'))" by (simp add: finished_def)
    qed
    show ?thesis using b em iv am ps 1 2 by simp
  qed
  show ?thesis
  proof (cases "pending s ! n")
    case (Baseline g)
    then show ?thesis using base by (cases "g = f") simp_all
  next
    case (Tick g)
    then show ?thesis using tick by (cases "g = f") simp_all
  qed
qed

theorem read_failure_ends_session_witness:
  "0 < length (pending started) \<and> pending started ! 0 = Baseline 0
   \<and> emitted (step started (ReadCompletes 0 Rejected))
       = [(''A'', ''monitoring-error'',
           [(''message'', JString ''Failed to access spreadsheet. Check the ID and permissions.'')])]
   \<and> 0 \<notin> intervals (run (step started (ReadCompletes 0 Rejected)) [IntervalFires 0])
   \<and> Tick 0 \<notin> set (pending (run (step started (ReadCompletes 0 Rejected)) [IntervalFires 0]))
   \<and> 0 < length (pending ticking3) \<and> pending ticking3 ! 0 = Tick 0
   \<and> emitted (step ticking3 (ReadCompletes 0 Rejected))
       = [(''A'', ''monitoring-error'', [(''message'', JString ''Lost connection to spreadsheet.'')])]
   \<and> activeMonitors (step ticking3 (ReadCompletes 0 Rejected)) ''A'' = None
   \<and> Tick 0 \<notin> set (pending (step ticking3 (ReadCompletes 0 Rejected)))
   \<and> Tick 0 \<notin> set (pending (run (step ticking3 (ReadCompletes 0 Rejected)) [IntervalFires 0]))"
proof -
  have a: "0 < length (pending started)" and b: "pending started ! 0 = Baseline 0"
    by (simp_all add: handler_defs)
  have c: "0 < length (pending ticking3)" and d: "pending ticking3 ! 0 = Tick 0"
    by (simp_all add: handler_defs)
  have e: "frames started ! 0 = \<lparr>socket = socketA, spreadsheetId = Some ''sheet'', lastRowCount = - 1\<rparr>"
    by (simp add: handler_defs)
  have f: "frames ticking3 ! 0 = \<lparr>socket = socketA, spreadsheetId = Some ''sheet'', lastRowCount = 3\<rparr>"
    by (simp add: handler_defs)
  have g: "emitted started = []" "emitted ticking3 = []"
    by (simp_all add: handler_defs)
  have h: "Tick 0 \<notin> set (pending (step ticking3 (ReadCompletes 0 Rejected)))"
    by (simp add: handler_defs)
  from read_failure_ends_session[OF refl a refl, of 0] b
  have T1: "emitted (step started (ReadCompletes 0 Rejected))
              = emitted started @ [(socket_id (socket (frames started ! 0)), ''monitoring-error'',
                   [(''message'', JString ''Failed to access spreadsheet. Check the ID and permissions.'')])]
          \<and> (\<forall>es'. 0 \<notin> intervals (run (step started (ReadCompletes 0 Rejected)) es')
                  \<and> Tick 0 \<notin> set (pending (run (step started (ReadCompletes 0 Rejected)) es')))"
    by blast
  have 1: "emitted (step started (ReadCompletes 0 Rejected))
       = [(''A'', ''monitoring-error'',
           [(''message'', JString ''Failed to access spreadsheet. Check the ID and permissions.'')])]"
    using T1 e g by simp
  have 2: "0 \<notin> intervals (run (step started (ReadCompletes 0 Rejected)) [IntervalFires 0])"
    and 3: "Tick 0 \<notin> set (pending (run (step started (ReadCompletes 0 Rejected)) [IntervalFires 0]))"
    using T1 by blast+
  from read_failure_ends_session[OF refl c refl, of 0] d
  have T2: "emitted (step ticking3 (ReadCompletes 0 Rejected))
              = emitted ticking3 @ [(socket_id (socket (frames ticking3 ! 0)), ''monitoring-error'',
                   [(''message'', JString ''Lost connection to spreadsheet.'')])]
          \<and> activeMonitors (step ticking3 (ReadCompletes 0 Rejected))
               (socket_id (socket (frames ticking3 ! 0))) = None
          \<and> (Tick 0 \<notin> set (pending (step ticking3 (ReadCompletes 0 Rejected)))
               \<longrightarrow> (\<forall>es'. Tick 0 \<notin> set (pending (run (step ticking3 (ReadCompletes 0 Rejected)) es'))))"
    by blast
  have 4: "emitted (step ticking3 (ReadCompletes 0 Rejected))
       = [(''A'', ''monitoring-error'', [(''message'', JString ''Lost connection to spreadsheet.'')])]"
    and 5: "activeMonitors (step ticking3 (ReadCompletes 0 Rejected)) ''A'' = None"
    using T2 f g by simp_all
  have 6: "Tick 0 \<notin> set (pending (run (step ticking3 (ReadCompletes 0 Rejected)) [IntervalFires 0]))"
    using T2 h by blast
  show ?thesis using a b c d h 1 2 3 4 5 6 by blast
qed

text \<open>
  In server.ts a failed tick read clears the interval held in \<open>monitorInterval\<close>: the
  session's own interval when the connection started once, the interval of the second
  session when it started twice.
\<close>

lemma ws_failure_clears_latest_interval:
  "ws_intervals (ws_complete_read 0 Rejected (ws_interval_callback 0 ws_restarted)) = {0}
   \<and> ws_intervals (ws_complete_read 0 Rejected (ws_interval_callback 0 ws_baselined3)) = {}"
  by (simp add: ws_handler_defs)

section \<open>An empty spreadsheet\<close>



section \<open>Starting twice\<close>

text \<open>
  A client starts monitoring the sheet \<open>first\<close> and then, without stopping, the sheet
  \<open>second\<close>. The interval of the first session is still set, its next tick reads the first
  sheet and emits its new rows, and \<open>stop-monitoring\<close> does not clear it.
\<close>

theorem second_start_counterexample:
  "0 \<in> intervals restarted \<and> activeMonitors restarted ''A'' = Some 1
   \<and> spreadsheetId (frames restarted ! 0) = Some ''first''
   \<and> emitted restarted = []
   \<and> pending (step restarted (IntervalFires 0)) = [Tick 0]
   \<and> emitted (run restarted [IntervalFires 0, ReadCompletes 0 (Resolved (Some rows5))])
       = [(''A'', ''new-leads'', [(''leads'', JRows [[''d''], [''e'']]), (''total'', JNumber 5)])]
   \<and> 0 \<in> intervals (step restarted (StopMonitoring socketA))"
  by (simp add: handler_defs)

lemma baseline_completion_keeps:
  assumes "n < length (pending s')" and "pending s' ! n = Baseline g"
  shows "intervals s' \<subseteq> intervals (step s' (ReadCompletes n r))
       \<and> (\<forall>k. activeMonitors s' k \<noteq> None \<longrightarrow> activeMonitors (step s' (ReadCompletes n r)) k \<noteq> None)"
  using assms
  by (cases "checkLeads r")
     (auto simp add: complete_read_def start_monitoring_resume_def emit_def Let_def)

text \<open>
  C2 (as the code has it). Take a connection with a registered interval that is set. A
  second \<open>start-monitoring\<close> does not tear the first session down: the request handler
  changes neither the intervals nor \<open>activeMonitors\<close>, and the completion of a baseline
  read, failed or successful, clears no interval and removes no registry entry. When the
  request is valid and its baseline read completes before anything else happens: after
  a failed read intervals and registry are as before the request; after a successful
  read the new session has an interval of its own next to the first one, the entry of
  the socket in \<open>activeMonitors\<close> holds the new interval, and a stop or disconnect that
  follows clears the new interval only, so the first interval stays set.
\<close>

theorem second_start_keeps_first_interval:
  assumes "s = run init es" and "activeMonitors s (socket_id sock) = Some t" and "t \<in> intervals s"
  shows "(\<forall>sheet. intervals (step s (StartMonitoring sock sheet)) = intervals s
                 \<and> activeMonitors (step s (StartMonitoring sock sheet)) = activeMonitors s)
       \<and> (\<forall>s' n r g. n < length (pending s') \<and> pending s' ! n = Baseline g \<longrightarrow>
             intervals s' \<subseteq> intervals (step s' (ReadCompletes n r))
           \<and> (\<forall>k. activeMonitors s' k \<noteq> None
                  \<longrightarrow> activeMonitors (step s' (ReadCompletes n r)) k \<noteq> None))
       \<and> (\<forall>sheet. \<not> falsy sheet \<and> session_tokens sock \<noteq> None \<longrightarrow>
             intervals (run s [StartMonitoring sock sheet, ReadCompletes (length (pending s)) Rejected])
               = intervals s
           \<and> activeMonitors (run s [StartMonitoring sock sheet, ReadCompletes (length (pending s)) Rejected])
               = activeMonitors s
           \<and> (\<forall>v. intervals (run s [StartMonitoring sock sheet,
                                     ReadCompletes (length (pending s)) (Resolved v)])
                      = insert (length (frames s)) (intervals s)
                  \<and> t \<noteq> length (frames s)
                  \<and> activeMonitors (run s [StartMonitoring sock sheet,
                                           ReadCompletes (length (pending s)) (Resolved v)]) (socket_id sock)
                      = Some (length (frames s))
                  \<and> intervals (step (run s [StartMonitoring sock sheet,
                                            ReadCompletes (length (pending s)) (Resolved v)])
                                    (StopMonitoring sock)) = intervals s
                  \<and> intervals (step (run s [StartMonitoring sock sheet,
                                            ReadCompletes (length (pending s)) (Resolved v)])
                                    (Disconnect sock)) = intervals s))"
proof -
  have wf: "wf s" using assms(1) by (simp add: wf_reachable)
  have lt: "\<forall>i \<in> intervals s. i < length (frames s)" using wf by (simp add: wf_def)
  then have new: "length (frames s) \<notin> intervals s" by auto
  have t: "t \<noteq> length (frames s)" using assms(3) new by auto
  have A: "\<forall>sheet. intervals (step s (StartMonitoring sock sheet)) = intervals s
                 \<and> activeMonitors (step s (StartMonitoring sock sheet)) = activeMonitors s"
    by (simp add: start_monitoring_def)
  have B: "\<forall>s' n r g. n < length (pending s') \<and> pending s' ! n = Baseline g \<longrightarrow>
             intervals s' \<subseteq> intervals (step s' (ReadCompletes n r))
           \<and> (\<forall>k. activeMonitors s' k \<noteq> None
                  \<longrightarrow> activeMonitors (step s' (ReadCompletes n r)) k \<noteq> None)"
    using baseline_completion_keeps by blast
  have C: "intervals (run s [StartMonitoring sock sheet, ReadCompletes (length (pending s)) Rejected])
               = intervals s
           \<and> activeMonitors (run s [StartMonitoring sock sheet, ReadCompletes (length (pending s)) Rejected])
               = activeMonitors s
           \<and> (\<forall>v. intervals (run s [StartMonitoring sock sheet,
                                     ReadCompletes (length (pending s)) (Resolved v)])
                      = insert (length (frames s)) (intervals s)
                  \<and> t \<noteq> length (frames s)
                  \<and> activeMonitors (run s [StartMonitoring sock sheet,
                                           ReadCompletes (length (pending s)) (Resolved v)]) (socket_id sock)
                      = Some (length (frames s))
                  \<and> intervals (step (run s [StartMonitoring sock sheet,
                                            ReadCompletes (length (pending s)) (Resolved v)])
                                    (StopMonitoring sock)) = intervals s
                  \<and> intervals (step (run s [StartMonitoring sock sheet,
                                            ReadCompletes (length (pending s)) (Resolved v)])
                                    (Disconnect sock)) = intervals s)"
    if valid: "\<not> falsy sheet \<and> session_tokens sock \<noteq> None" for sheet
  proof -
    have s1: "start_monitoring sock sheet s
            = s\<lparr>frames := frames s @ [\<lparr>socket = sock, spreadsheetId = sheet, lastRowCount = - 1\<rparr>],
                pending := pending s @ [Baseline (length (frames s))]\<rparr>"
      using valid by (simp add: start_monitoring_def)
    have rej: "complete_read (length (pending s)) Rejected (start_monitoring sock sheet s)
             = s\<lparr>frames := frames s @ [\<lparr>socket = sock, spreadsheetId = sheet, lastRowCount = - 1\<rparr>],
                 emitted := emitted s @ [(socket_id sock, ''monitoring-error'',
                   [(''message'', JString ''Failed to access spreadsheet. Check the ID and permissions.'')])]\<rparr>"
      by (simp add: s1 complete_read_def checkLeads_def start_monitoring_resume_def emit_def Let_def)
    have suc: "complete_read (length (pending s)) (Resolved v) (start_monitoring sock sheet s)
             = s\<lparr>frames := (frames s @ [\<lparr>socket = sock, spreadsheetId = sheet, lastRowCount = - 1\<rparr>])
                     [length (frames s) := \<lparr>socket = sock, spreadsheetId = sheet,
                        lastRowCount = int (length (case v of None \<Rightarrow> [] | Some rs \<Rightarrow> rs))\<rparr>],
                   intervals := insert (length (frames s)) (intervals s),
                   activeMonitors := (activeMonitors s)(socket_id sock \<mapsto> length (frames s))\<rparr>" for v
      by (cases v) (simp_all add: s1 complete_read_def checkLeads_def start_monitoring_resume_def Let_def)
    show ?thesis
      using new t
      by (simp add: rej suc stop_monitoring_def disconnect_def clearInterval_def Let_def)
  qed
  show ?thesis using A B C by blast
qed

theorem second_start_keeps_first_interval_witness:
  "activeMonitors baselined3 (socket_id socketA) = Some 0 \<and> 0 \<in> intervals baselined3
   \<and> \<not> falsy (Some ''second'') \<and> session_tokens socketA \<noteq> None
   \<and> intervals (step baselined3 (StartMonitoring socketA (Some ''second''))) = {0}
   \<and> intervals (run baselined3 [StartMonitoring socketA (Some ''second''),
                                  ReadCompletes (length (pending baselined3)) Rejected]) = {0}
   \<and> intervals (run baselined3 [StartMonitoring socketA (Some ''second''),
                                  ReadCompletes (length (pending baselined3)) (Resolved None)]) = {1, 0}
   \<and> activeMonitors (run baselined3 [StartMonitoring socketA (Some ''second''),
                                       ReadCompletes (length (pending baselined3)) (Resolved None)])
        (socket_id socketA) = Some 1
   \<and> intervals (step (run baselined3 [StartMonitoring socketA (Some ''second''),
                                       ReadCompletes (length (pending baselined3)) (Resolved None)])
                      (StopMonitoring socketA)) = {0}"
proof -
  have r: "baselined3 = run init [StartMonitoring socketA (Some ''sheet''),
                                  ReadCompletes 0 (Resolved (Some rows3))]"
    by (rule run_baselined3[symmetric])
  have a: "activeMonitors baselined3 (socket_id socketA) = Some 0" and b: "0 \<in> intervals baselined3"
    and c: "\<not> falsy (Some ''second'')" and d: "session_tokens socketA \<noteq> None"
    by (simp_all add: falsy_def)
  have l: "length (frames baselined3) = 1" and i: "intervals baselined3 = {0}" by simp_all
  note T = second_start_keeps_first_interval[OF r a b]
  note TA = T[THEN conjunct1, THEN spec[where x="Some ''second''"]]
  note TC = T[THEN conjunct2, THEN conjunct2, THEN spec[where x="Some ''second''"], THEN mp,
              OF conjI[OF c d]]
  note TV = TC[THEN conjunct2, THEN conjunct2, THEN spec[where x="None"]]
  have 1: "intervals (step baselined3 (StartMonitoring socketA (Some ''second''))) = intervals baselined3"
    by (rule TA[THEN conjunct1])
  have 2: "intervals (run baselined3 [StartMonitoring socketA (Some ''second''),
                                  ReadCompletes (length (pending baselined3)) Rejected]) = intervals baselined3"
    by (rule TC[THEN conjunct1])
  have 3: "intervals (run baselined3 [StartMonitoring socketA (Some ''second''),
                                  ReadCompletes (length (pending baselined3)) (Resolved None)])
             = insert (length (frames baselined3)) (intervals baselined3)"
    by (rule TV[THEN conjunct1])
  have 4: "activeMonitors (run baselined3 [StartMonitoring socketA (Some ''second''),
                                       ReadCompletes (length (pending baselined3)) (Resolved None)])
        (socket_id socketA) = Some (length (frames baselined3))"
    by (rule TV[THEN conjunct2, THEN conjunct2, THEN conjunct1])
  have 5: "intervals (step (run baselined3 [StartMonitoring socketA (Some ''second''),
                                       ReadCompletes (length (pending baselined3)) (Resolved None)])
                      (StopMonitoring socketA)) = intervals baselined3"
    by (rule TV[THEN conjunct2, THEN conjunct2, THEN conjunct2, THEN conjunct1])
  show ?thesis
    by (intro conjI) (simp_all only: a b c d 1 2 3 4 5 l i, simp_all)
qed

text \<open>server.ts behaves the same way: after a second start both intervals are set, and
  \<open>stop-monitoring\<close> clears only the one held in \<open>monitorInterval\<close>.\<close>

lemma ws_second_start_keeps_first_interval:
  "ws_intervals ws_restarted = {0, 1} \<and> monitorInterval ws_restarted = Some 1
   \<and> ws_intervals (ws_message ''stop-monitoring'' None ws_restarted) = {0}"
  by (auto simp add: ws_handler_defs)

section \<open>Stopping while a read is in flight\<close>

text \<open>
  A client stops, or disconnects, while the first tick read is in flight: the registry
  entry and the interval are gone and nothing was emitted, and when the read then
  completes with two more rows the callback calls \<open>socket.emit\<close> with a \<open>new-leads\<close>
  message (after a stop the connection is open and the client receives it).
\<close>

theorem stop_in_flight_counterexample:
  "activeMonitors stopped_in_flight ''A'' = None \<and> intervals stopped_in_flight = {}
   \<and> emitted stopped_in_flight = []
   \<and> emitted (step stopped_in_flight (ReadCompletes 0 (Resolved (Some rows5))))
       = [(''A'', ''new-leads'', [(''leads'', JRows [[''d''], [''e'']]), (''total'', JNumber 5)])]
   \<and> activeMonitors disconnected_in_flight ''A'' = None \<and> intervals disconnected_in_flight = {}
   \<and> emitted disconnected_in_flight = []
   \<and> emitted (step disconnected_in_flight (ReadCompletes 0 (Resolved (Some rows5))))
       = [(''A'', ''new-leads'', [(''leads'', JRows [[''d''], [''e'']]), (''total'', JNumber 5)])]"
  by (simp add: handler_defs)

lemma emitted_after_stop:
  "emitted (complete_read n r (stop_monitoring sock s)) = emitted (complete_read n r s)"
  by (cases "checkLeads r")
     (auto simp add: complete_read_def stop_monitoring_def clearInterval_def start_monitoring_resume_def
        interval_callback_resume_def emit_def Let_def split: option.splits pending_read.splits)

lemma stop_disconnect: "disconnect sock s = stop_monitoring sock s"
  by (simp add: disconnect_def stop_monitoring_def)

text \<open>
  A stop that arrives while the baseline read is still in flight finds no registry entry
  and does nothing; when the baseline read then succeeds the interval is set and
  registered.
\<close>

lemma stop_before_baseline:
  "step started (StopMonitoring socketA) = started
   \<and> intervals (run started [StopMonitoring socketA, ReadCompletes 0 (Resolved (Some rows3))]) = {0}
   \<and> activeMonitors (run started [StopMonitoring socketA, ReadCompletes 0 (Resolved (Some rows3))]) ''A''
       = Some 0"
  by (simp add: handler_defs)

text \<open>
  C3 (as the code has it). Take a stop or a disconnect of a connection. When the
  connection has a registry entry, the entry is deleted and the registered interval, and
  no other, is cleared for good: in every later state it is not set and its callback
  starts no read. The handler emits nothing and leaves the reads in flight where they
  are, and there is no liveness check when a read completes: a completion that follows
  the stop emits exactly what it would have emitted without the stop. When the
  connection has no registry entry, as while its baseline read is in flight, the handler
  does nothing, and a baseline read that then succeeds sets the interval of its session.
\<close>

theorem stop_clears_interval_only:
  assumes "s = run init es" and "e = StopMonitoring sock \<or> e = Disconnect sock"
  shows "(activeMonitors s (socket_id sock) = None \<longrightarrow>
            step s e = s
          \<and> (\<forall>n f v. n < length (pending s) \<and> pending s ! n = Baseline f
                \<longrightarrow> f \<in> intervals (step (step s e) (ReadCompletes n (Resolved v)))))
       \<and> (\<forall>t. activeMonitors s (socket_id sock) = Some t \<longrightarrow>
            pending (step s e) = pending s \<and> emitted (step s e) = emitted s
          \<and> activeMonitors (step s e) (socket_id sock) = None
          \<and> intervals (step s e) = intervals s - {t}
          \<and> (\<forall>es'. t \<notin> intervals (run (step s e) es')
                  \<and> step (run (step s e) es') (IntervalFires t) = run (step s e) es')
          \<and> (\<forall>n r. emitted (step (step s e) (ReadCompletes n r)) = emitted (step s (ReadCompletes n r))))"
proof -
  have wf: "wf s" using assms(1) by (simp add: wf_reachable)
  have eq: "step s e = stop_monitoring sock s"
    using assms(2) by (auto simp add: stop_disconnect)
  have none: "step s e = s
          \<and> (\<forall>n f v. n < length (pending s) \<and> pending s ! n = Baseline f
                \<longrightarrow> f \<in> intervals (step (step s e) (ReadCompletes n (Resolved v))))"
    if n: "activeMonitors s (socket_id sock) = None"
  proof -
    have same: "step s e = s" using n by (simp add: eq stop_monitoring_def)
    have "f \<in> intervals (step s (ReadCompletes n (Resolved v)))"
      if "n < length (pending s)" "pending s ! n = Baseline f" for n f v
      using that
      by (cases v) (simp_all add: complete_read_def checkLeads_def start_monitoring_resume_def Let_def)
    then show ?thesis using same by simp
  qed
  have some: "pending (step s e) = pending s \<and> emitted (step s e) = emitted s
          \<and> activeMonitors (step s e) (socket_id sock) = None
          \<and> intervals (step s e) = intervals s - {t}
          \<and> (\<forall>es'. t \<notin> intervals (run (step s e) es')
                  \<and> step (run (step s e) es') (IntervalFires t) = run (step s e) es')
          \<and> (\<forall>n r. emitted (step (step s e) (ReadCompletes n r)) = emitted (step s (ReadCompletes n r)))"
    if a: "activeMonitors s (socket_id sock) = Some t" for t
  proof -
    have t: "t < length (frames s)" and nb: "Baseline t \<notin> set (pending s)"
      using wf a by (auto simp add: wf_def)
    have 1: "pending (step s e) = pending s" and 2: "emitted (step s e) = emitted s"
      and 3: "activeMonitors (step s e) (socket_id sock) = None"
      and 6: "intervals (step s e) = intervals s - {t}"
      using a by (simp_all add: eq stop_monitoring_def clearInterval_def Let_def)
    have "released t (step s e)"
      using a t nb by (simp add: eq released_def stop_monitoring_def clearInterval_def Let_def)
    then have "\<forall>es'. released t (run (step s e) es')"
      by (simp add: released_run)
    then have 4: "\<forall>es'. t \<notin> intervals (run (step s e) es')
               \<and> step (run (step s e) es') (IntervalFires t) = run (step s e) es'"
      using released_no_tick by (auto simp add: released_def)
    have 5: "\<forall>n r. emitted (step (step s e) (ReadCompletes n r)) = emitted (step s (ReadCompletes n r))"
      by (simp add: eq emitted_after_stop)
    show ?thesis using 1 2 3 4 5 6 by blast
  qed
  show ?thesis using none some by blast
qed

theorem stop_clears_interval_only_witness:
  "activeMonitors ticking3 (socket_id socketA) = Some 0
   \<and> pending (step ticking3 (StopMonitoring socketA)) = [Tick 0]
   \<and> emitted (step ticking3 (StopMonitoring socketA)) = []
   \<and> 0 \<notin> intervals (run (step ticking3 (StopMonitoring socketA)) [IntervalFires 0])
   \<and> emitted (step (step ticking3 (StopMonitoring socketA)) (ReadCompletes 0 (Resolved (Some rows5))))
       = emitted (step ticking3 (ReadCompletes 0 (Resolved (Some rows5))))
   \<and> activeMonitors started (socket_id socketA) = None
   \<and> step started (Disconnect socketA) = started
   \<and> 0 < length (pending started) \<and> pending started ! 0 = Baseline 0
   \<and> 0 \<in> intervals (step (step started (Disconnect socketA)) (ReadCompletes 0 (Resolved (Some rows3))))"
proof -
  have a: "activeMonitors ticking3 (socket_id socketA) = Some 0"
    by (simp add: handler_defs)
  have p: "pending ticking3 = [Tick 0]" and e: "emitted ticking3 = []"
    by (simp_all add: handler_defs)
  have b: "activeMonitors started (socket_id socketA) = None"
    and c: "0 < length (pending started)" and d: "pending started ! 0 = Baseline 0"
    by (simp_all add: handler_defs)
  note T = stop_clears_interval_only[OF refl disjI1[OF refl], of
      "[StartMonitoring socketA (Some ''sheet''), ReadCompletes 0 (Resolved (Some rows3)), IntervalFires 0]"
      socketA]
  note U = stop_clears_interval_only[OF refl disjI2[OF refl], of
      "[StartMonitoring socketA (Some ''sheet'')]" socketA]
  have 1: "pending (step ticking3 (StopMonitoring socketA)) = pending ticking3"
    and 2: "emitted (step ticking3 (StopMonitoring socketA)) = emitted ticking3"
    and 3: "0 \<notin> intervals (run (step ticking3 (StopMonitoring socketA)) [IntervalFires 0])"
    and 4: "emitted (step (step ticking3 (StopMonitoring socketA)) (ReadCompletes 0 (Resolved (Some rows5))))
       = emitted (step ticking3 (ReadCompletes 0 (Resolved (Some rows5))))"
    using T a by blast+
  have 5: "step started (Disconnect socketA) = started"
    and 6: "0 \<in> intervals (step (step started (Disconnect socketA)) (ReadCompletes 0 (Resolved (Some rows3))))"
    using U b c d by blast+
  show ?thesis using a b c d 1 2 3 4 5 6 unfolding p e by blast
qed

section \<open>The timer\<close>

text \<open>The interval fires twice before the first tick read completes: two reads of the same
  session are in flight.\<close>

theorem overlapping_reads_counterexample:
  "pending (run init [StartMonitoring socketA (Some ''sheet''),
                      ReadCompletes 0 (Resolved (Some rows3)), IntervalFires 0, IntervalFires 0])
   = [Tick 0, Tick 0]"
  by (simp add: handler_defs)

text \<open>
  C4 (as the code has it). The reads of a session are driven by \<open>setInterval\<close>: whenever
  the interval fires while it is set, a new read is started, whatever reads are still in
  flight, and the interval stays set; the successful completion of a tick read removes
  that read and schedules nothing.
\<close>

theorem interval_fires_at_fixed_rate:
  assumes "t \<in> intervals s"
  shows "pending (step s (IntervalFires t)) = pending s @ [Tick t]
       \<and> intervals (step s (IntervalFires t)) = intervals s
       \<and> (\<forall>n f v. n < length (pending s) \<and> pending s ! n = Tick f \<longrightarrow>
            pending (step s (ReadCompletes n (Resolved v))) = take n (pending s) @ drop (Suc n) (pending s)
          \<and> intervals (step s (ReadCompletes n (Resolved v))) = intervals s)"
proof -
  have "pending (step s (ReadCompletes n (Resolved v))) = take n (pending s) @ drop (Suc n) (pending s)
      \<and> intervals (step s (ReadCompletes n (Resolved v))) = intervals s"
    if "n < length (pending s)" "pending s ! n = Tick f" for n f v
    using that
    by (cases v) (simp_all add: complete_read_def checkLeads_def interval_callback_resume_def emit_def Let_def)
  then show ?thesis using assms by (simp add: interval_callback_def)
qed

theorem interval_fires_at_fixed_rate_witness:
  "0 \<in> intervals ticking3 \<and> pending ticking3 = [Tick 0]
   \<and> pending (step ticking3 (IntervalFires 0)) = [Tick 0, Tick 0]
   \<and> intervals (step ticking3 (IntervalFires 0)) = intervals ticking3
   \<and> 0 < length (pending ticking3) \<and> pending ticking3 ! 0 = Tick 0
   \<and> intervals (step ticking3 (ReadCompletes 0 (Resolved (Some rows5)))) = intervals ticking3"
proof -
  have a: "0 \<in> intervals ticking3" and p: "pending ticking3 = [Tick 0]"
    by (simp_all add: handler_defs)
  have b: "0 < length (pending ticking3)" and c: "pending ticking3 ! 0 = Tick 0"
    by (simp_all add: handler_defs)
  note T = interval_fires_at_fixed_rate[OF a]
  have 1: "pending (step ticking3 (IntervalFires 0)) = pending ticking3 @ [Tick 0]"
    and 2: "intervals (step ticking3 (IntervalFires 0)) = intervals ticking3"
    using T by blast+
  have 3: "intervals (step ticking3 (ReadCompletes 0 (Resolved (Some rows5)))) = intervals ticking3"
    using T b c by blast
  have 4: "pending (step ticking3 (IntervalFires 0)) = [Tick 0, Tick 0]"
    using 1 unfolding p by simp
  show ?thesis using a p b c 2 3 4 by blast
qed

text \<open>In server.ts, too, the interval fires while a read of the session is in flight.\<close>

lemma ws_overlapping_reads:
  "ws_pending (ws_interval_callback 0 (ws_interval_callback 0 ws_baselined3)) = [Tick 0, Tick 0]"
  by (simp add: ws_handler_defs)

section \<open>The guard of \<open>start-monitoring\<close>\<close>

text \<open>The socket.io server returns from the handler, with nothing changed, when
  \<open>spreadsheetId\<close> is undefined or empty or the session has no tokens.\<close>

lemma start_monitoring_guard:
  "start_monitoring sock None s = s \<and> start_monitoring sock (Some []) s = s
   \<and> start_monitoring (sock\<lparr>session_tokens := None\<rparr>) sheet s = s"
  by (simp add: start_monitoring_def falsy_def)

text \<open>
  C5. A \<open>start-monitoring\<close> request with an empty \<open>spreadsheetId\<close> should be rejected
  before any read. In server.ts, on a connection with tokens, the request is not
  rejected: no error is sent, a closure with the empty id is created and its baseline
  read is in flight; if that read returns rows, an interval is set.
\<close>

theorem ws_empty_spreadsheetId_is_read:
  "ws_pending (ws_message ''start-monitoring'' (Some []) (ws_init (Some ''tok''))) = [Baseline 0]
   \<and> ws_spreadsheetId (ws_frames (ws_message ''start-monitoring'' (Some []) (ws_init (Some ''tok''))) ! 0)
       = Some []
   \<and> sent (ws_message ''start-monitoring'' (Some []) (ws_init (Some ''tok''))) = []
   \<and> ws_intervals (ws_complete_read 0 (Resolved (Some rows3))
        (ws_message ''start-monitoring'' (Some []) (ws_init (Some ''tok'')))) = {0}"
  by (simp add: ws_handler_defs)

section \<open>The \<open>new-leads\<close> message\<close>

text \<open>In the socket.io server a successful tick emits nothing or one \<open>new-leads\<close> object with
  the fields \<open>leads\<close> and \<open>total\<close>, the total being the number of rows read.\<close>

lemma new_leads_carries_total:
  "emitted (interval_callback_resume f (Some rs) s) = emitted s
   \<or> emitted (interval_callback_resume f (Some rs) s)
       = emitted s @ [(socket_id (socket (frames s ! f)), ''new-leads'',
                       [(''leads'', JRows (slice rs (lastRowCount (frames s ! f)))),
                        (''total'', JNumber (int (length rs)))])]"
  by (simp add: interval_callback_resume_def emit_def Let_def)

text \<open>
  C7. Every \<open>new-leads\<close> message should carry the batch and the new total. In server.ts
  the message sent for a sheet that grew from three to five rows has the fields \<open>type\<close>
  and \<open>leads\<close> only: there is no field \<open>total\<close>.
\<close>

theorem ws_new_leads_without_total:
  "sent (ws_complete_read 0 (Resolved (Some rows5)) (ws_interval_callback 0 ws_baselined3))
     = [[(''type'', JString ''new-leads''), (''leads'', JRows [[''d''], [''e'']])]]
   \<and> map_of (last (sent (ws_complete_read 0 (Resolved (Some rows5))
                           (ws_interval_callback 0 ws_baselined3)))) ''total'' = None"
  by (simp add: ws_handler_defs)

end
